theory Spec2Isabelle
  imports Complex_Main
begin

section \<open>Stochastic simulation of AMPA receptor dynamics: the Gillespie engine\<close>

text \<open>
  A shallow embedding of \<^verbatim>\<open>sanityCheckShortTerm.py\<close>: the combinatorial factor
  \<^verbatim>\<open>calculate_hi\<close>, the event scheduler \<^verbatim>\<open>next_values\<close>, the reaction parser
  \<^verbatim>\<open>reactions_stoch\<close> and the simulation loop \<^verbatim>\<open>gillespie_algo\<close>.

  Conventions of the embedding.
  \<^item> Python's exceptions are values of the type \<open>error\<close>; a function that can raise
    returns \<open>error + 'a\<close>, with \<open>Inl\<close> for the exception.
  \<^item> numpy's \<^verbatim>\<open>float64\<close> values are the type \<open>float64\<close>: a finite value, the two
    infinities or \<^verbatim>\<open>nan\<close>. Every arithmetic operation rounds its exact result to the
    nearest binary64 number, ties to even (\<open>rnd\<close>).
  \<^item> Python's own integers are unbounded (\<open>int\<close>); the entries of numpy's \<^verbatim>\<open>int64\<close>
    arrays are integers on which addition wraps around (\<open>wrap64\<close>).
\<close>

subsection \<open>Errors\<close>

datatype error = IndexError | ValueError | ZeroDivisionError | OverflowError

subsection \<open>Binary64 arithmetic\<close>

text \<open>
  A finite \<^verbatim>\<open>float64\<close> is a real number of the form \<open>k * 2^j\<close> with \<open>|k| < 2^53\<close> and
  \<open>-1074 \<le> j \<le> 971\<close> (\<open>is_double\<close>). The embedding has one zero: it does not
  distinguish \<^verbatim>\<open>-0.0\<close> from \<^verbatim>\<open>0.0\<close>. (The program divides by the total propensity,
  which is a sum that starts from \<open>0\<close> and so is never \<^verbatim>\<open>-0.0\<close>, and by a draw.)
\<close>

datatype float64 = Fin real | PInf | NInf | NaN

definition is_double :: "real \<Rightarrow> bool" where
  "is_double y \<longleftrightarrow>
     (\<exists>k j. \<bar>k\<bar> < 2 ^ 53 \<and> - 1074 \<le> j \<and> j \<le> 971 \<and> y = of_int k * 2 powi j)"

text \<open>Rounding a real number to the nearest integer, ties to the even one.\<close>

definition round_even :: "real \<Rightarrow> int" where
  "round_even t =
     (if t - of_int \<lfloor>t\<rfloor> < 1 / 2 then \<lfloor>t\<rfloor>
      else if 1 / 2 < t - of_int \<lfloor>t\<rfloor> then \<lfloor>t\<rfloor> + 1
      else if even \<lfloor>t\<rfloor> then \<lfloor>t\<rfloor> else \<lfloor>t\<rfloor> + 1)"

text \<open>
  The exponent of the unit in the last place of \<open>x\<close>: 52 binary places below the
  leading bit, and never below the subnormal spacing \<open>2^-1074\<close>. Rounding to binary64
  rounds \<open>x\<close> to a multiple of that unit; a result of magnitude \<open>2^1024\<close> or more
  overflows to an infinity.
\<close>

definition ulp_exp :: "real \<Rightarrow> int" where
  "ulp_exp x = max (\<lfloor>log 2 \<bar>x\<bar>\<rfloor> - 52) (- 1074)"

definition rnd_real :: "real \<Rightarrow> real" where
  "rnd_real x = of_int (round_even (x / 2 powi ulp_exp x)) * 2 powi ulp_exp x"

definition rnd :: "real \<Rightarrow> float64" where
  "rnd x = (if 2 ^ 1024 \<le> \<bar>rnd_real x\<bar> then (if 0 < x then PInf else NInf)
            else Fin (rnd_real x))"

text \<open>The operations of IEEE 754, with its rules for the infinities and \<^verbatim>\<open>nan\<close>.\<close>

fun fneg :: "float64 \<Rightarrow> float64" where
  "fneg (Fin x) = Fin (- x)"
| "fneg PInf = NInf"
| "fneg NInf = PInf"
| "fneg NaN = NaN"

fun fadd :: "float64 \<Rightarrow> float64 \<Rightarrow> float64" where
  "fadd (Fin x) (Fin y) = rnd (x + y)"
| "fadd NaN _ = NaN"
| "fadd _ NaN = NaN"
| "fadd PInf NInf = NaN"
| "fadd NInf PInf = NaN"
| "fadd PInf _ = PInf"
| "fadd _ PInf = PInf"
| "fadd NInf _ = NInf"
| "fadd _ NInf = NInf"

definition fsub :: "float64 \<Rightarrow> float64 \<Rightarrow> float64" where
  "fsub a b = fadd a (fneg b)"

text \<open>An infinity of the given sign times, or divided by, a finite number.\<close>

definition signed_inf :: "bool \<Rightarrow> real \<Rightarrow> float64" where
  "signed_inf positive y =
     (if y = 0 then NaN else if (0 < y) = positive then PInf else NInf)"

fun fmul :: "float64 \<Rightarrow> float64 \<Rightarrow> float64" where
  "fmul (Fin x) (Fin y) = rnd (x * y)"
| "fmul NaN _ = NaN"
| "fmul _ NaN = NaN"
| "fmul PInf (Fin y) = signed_inf True y"
| "fmul NInf (Fin y) = signed_inf False y"
| "fmul (Fin x) PInf = signed_inf True x"
| "fmul (Fin x) NInf = signed_inf False x"
| "fmul PInf PInf = PInf"
| "fmul NInf NInf = PInf"
| "fmul PInf NInf = NInf"
| "fmul NInf PInf = NInf"

fun fdiv :: "float64 \<Rightarrow> float64 \<Rightarrow> float64" where
  "fdiv (Fin x) (Fin y) = (if y = 0 then signed_inf True x else rnd (x / y))"
| "fdiv NaN _ = NaN"
| "fdiv _ NaN = NaN"
| "fdiv (Fin x) _ = Fin 0"
| "fdiv PInf (Fin y) = (if 0 \<le> y then PInf else NInf)"
| "fdiv NInf (Fin y) = (if 0 \<le> y then NInf else PInf)"
| "fdiv _ _ = NaN"

text \<open>
  \<^verbatim>\<open>np.log\<close>, read as the correctly rounded logarithm. The theorems below use its
  special values and its sign only.
\<close>

fun flog :: "float64 \<Rightarrow> float64" where
  "flog (Fin x) = (if x < 0 then NaN else if x = 0 then NInf else rnd (ln x))"
| "flog PInf = PInf"
| "flog _ = NaN"

text \<open>The comparisons \<^verbatim>\<open>N > 0\<close> and \<^verbatim>\<open>s < t\<close>; a comparison with \<^verbatim>\<open>nan\<close> is false.\<close>

fun fgt0 :: "float64 \<Rightarrow> bool" where
  "fgt0 (Fin x) = (0 < x)"
| "fgt0 PInf = True"
| "fgt0 _ = False"

fun flt :: "float64 \<Rightarrow> float64 \<Rightarrow> bool" where
  "flt (Fin x) (Fin y) = (x < y)"
| "flt (Fin x) PInf = True"
| "flt NInf (Fin y) = True"
| "flt NInf PInf = True"
| "flt _ _ = False"

text \<open>
  A Python integer as a \<^verbatim>\<open>float64\<close>: the nearest one, and \<^verbatim>\<open>OverflowError\<close> when the
  integer is too large.
\<close>

definition int_to_float :: "int \<Rightarrow> error + float64" where
  "int_to_float k =
     (case rnd (of_int k) of Fin y \<Rightarrow> Inr (Fin y) | _ \<Rightarrow> Inl OverflowError)"

text \<open>Addition in an \<^verbatim>\<open>int64\<close> array, and \<^verbatim>\<open>np.absolute\<close> on an \<^verbatim>\<open>int64\<close>.\<close>

definition wrap64 :: "int \<Rightarrow> int" where
  "wrap64 k = (k + 2 ^ 63) mod 2 ^ 64 - 2 ^ 63"

definition np_absolute :: "int \<Rightarrow> int" where
  "np_absolute k = wrap64 \<bar>k\<bar>"

subsection \<open>\<^verbatim>\<open>calculate_hi\<close>\<close>

text \<open>
  \<^verbatim>\<open>
  def calculate_hi(n,m):
      b=[0]*(n+1)
      b[0]=1
      for i in range(1,n+1):
          b[i]=1
          j=i-1
          while j>0:
              b[j]+=b[j-1]
              j-=1
      hi = b[m]*factorial(m)
      return(hi)
  \<close>
  The inner \<^verbatim>\<open>while\<close> loop walks \<open>j\<close> from \<open>i - 1\<close> down to \<open>1\<close> and adds the left
  neighbour into \<open>b[j]\<close> in place. The list \<open>b\<close> holds Python integers.
\<close>

fun pascal_inner :: "int list \<Rightarrow> nat \<Rightarrow> int list" where
  "pascal_inner b 0 = b"
| "pascal_inner b (Suc j) = pascal_inner (b[Suc j := b ! Suc j + b ! j]) j"

text \<open>One pass of the outer \<^verbatim>\<open>for\<close> loop, for the index \<open>i\<close>.\<close>

definition pascal_step :: "int list \<Rightarrow> nat \<Rightarrow> int list" where
  "pascal_step b i = pascal_inner (b[i := 1]) (i - 1)"

text \<open>The list \<open>b\<close> after the outer loop over \<^verbatim>\<open>range(1, n+1)\<close>.\<close>

definition pascal_row :: "nat \<Rightarrow> int list" where
  "pascal_row n = foldl pascal_step ((replicate (Suc n) 0)[0 := 1]) [1..<Suc n]"

text \<open>
  \<^verbatim>\<open>scipy.special.factorial\<close> returns a \<^verbatim>\<open>float64\<close>: \<open>0\<close> on a negative argument, and
  otherwise \<open>m!\<close> as a \<^verbatim>\<open>float64\<close>, which is \<open>m!\<close> itself up to \<open>m = 22\<close>, a rounded
  value from \<open>m = 23\<close> and \<^verbatim>\<open>inf\<close> from \<open>m = 171\<close>. (scipy computes it through the gamma
  function; the embedding takes the correctly rounded value.)
\<close>

definition factorial :: "int \<Rightarrow> float64" where
  "factorial m = (if m < 0 then Fin 0 else rnd (of_nat (fact (nat m))))"

text \<open>
  Python and numpy indexing: an index \<open>i\<close> into a sequence of length \<open>len\<close> is a
  position when \<open>0 \<le> i < len\<close>; an index \<open>- len \<le> i < 0\<close> counts from the end; any
  other index raises \<^verbatim>\<open>IndexError\<close>.
\<close>

definition py_position :: "nat \<Rightarrow> int \<Rightarrow> nat option" where
  "py_position len i =
     (if 0 \<le> i \<and> i < int len then Some (nat i)
      else if i < 0 \<and> - int len \<le> i then Some (nat (int len + i))
      else None)"

definition py_index :: "'a list \<Rightarrow> int \<Rightarrow> error + 'a" where
  "py_index xs i =
     (case py_position (length xs) i of None \<Rightarrow> Inl IndexError | Some j \<Rightarrow> Inr (xs ! j))"

text \<open>
  For \<open>n < 0\<close> the list \<^verbatim>\<open>[0]*(n+1)\<close> is empty and \<^verbatim>\<open>b[0]=1\<close> raises. The product
  \<^verbatim>\<open>b[m]*factorial(m)\<close> of a Python integer and a \<^verbatim>\<open>float64\<close> converts the integer
  and multiplies in \<^verbatim>\<open>float64\<close>.
\<close>

definition calculate_hi :: "int \<Rightarrow> int \<Rightarrow> error + float64" where
  "calculate_hi n m =
     (if n < 0 then Inl IndexError
      else case py_index (pascal_row (nat n)) m of
             Inl e \<Rightarrow> Inl e
           | Inr bm \<Rightarrow>
               (case int_to_float bm of
                  Inl e \<Rightarrow> Inl e
                | Inr f \<Rightarrow> Inr (fmul f (factorial m))))"

subsection \<open>\<^verbatim>\<open>next_values\<close>\<close>

text \<open>
  \<^verbatim>\<open>
  def next_values(a0,a,r1,r2):
      new_time_difference = (1/a0)*np.log(1/r1)
      mu = 0
      N = r2*a0 - a[mu]
      while N > 0:
          mu += 1
          N = N - a[mu]
      return(new_time_difference, mu)
  \<close>
  The arguments are numpy values, as \<^verbatim>\<open>gillespie_algo\<close> passes them for a network with
  at least one reaction: a division by zero gives an infinity or \<^verbatim>\<open>nan\<close> (and a warning),
  not an exception.
\<close>

definition new_time_difference :: "float64 \<Rightarrow> float64 \<Rightarrow> float64" where
  "new_time_difference a0 r1 = fmul (fdiv (Fin 1) a0) (flog (fdiv (Fin 1) r1))"

text \<open>
  The \<^verbatim>\<open>while\<close> loop; \<^verbatim>\<open>a[mu]\<close> raises \<^verbatim>\<open>IndexError\<close> once \<open>mu\<close> has run past the end.
\<close>

function scan_mu :: "float64 list \<Rightarrow> nat \<Rightarrow> float64 \<Rightarrow> error + nat" where
  "scan_mu a mu N =
     (if fgt0 N
      then (if Suc mu < length a then scan_mu a (Suc mu) (fsub N (a ! Suc mu))
            else Inl IndexError)
      else Inr mu)"
  by pat_completeness auto
termination
  by (relation "measure (\<lambda>(a, mu, N). length a - mu)") auto

declare scan_mu.simps [simp del]

definition next_values ::
  "float64 \<Rightarrow> float64 list \<Rightarrow> float64 \<Rightarrow> float64 \<Rightarrow> error + (float64 \<times> nat)" where
  "next_values a0 a r1 r2 =
     (case a of
        [] \<Rightarrow> Inl IndexError
      | a_0 # _ \<Rightarrow>
          (case scan_mu a 0 (fsub (fmul r2 a0) a_0) of
             Inl e \<Rightarrow> Inl e
           | Inr mu \<Rightarrow> Inr (new_time_difference a0 r1, mu)))"

subsection \<open>Propensities (step 1 of the loop body)\<close>

text \<open>
  \<^verbatim>\<open>
  for i in range(number_reactions):
      hi = 1
      for j in range(number_species):
          if sub_stoch[i,j] == 0:
              continue
          else:
              if current_species[j] <= 0:
                  hi = 0
                  continue
              else:
                  hi *= calculate_hi(int(current_species[j]),np.absolute(sub_stoch[i,j]))
      a[i] = hi*rates[i]
  a0 = sum(a)
  \<close>
  \<open>hi_loop row x hi js\<close> is the inner loop over the species indices \<open>js\<close> still to visit,
  for the row \<open>row\<close> of \<open>sub_stoch\<close> and the state \<open>x\<close>. The products are \<^verbatim>\<open>float64\<close>
  products. The built-in \<^verbatim>\<open>sum\<close> adds the entries from the left, starting from \<open>0\<close>.
\<close>

fun hi_loop :: "int list \<Rightarrow> int list \<Rightarrow> float64 \<Rightarrow> nat list \<Rightarrow> error + float64" where
  "hi_loop row x hi [] = Inr hi"
| "hi_loop row x hi (j # js) =
     (if row ! j = 0 then hi_loop row x hi js
      else if x ! j \<le> 0 then hi_loop row x (Fin 0) js
      else (case calculate_hi (x ! j) (np_absolute (row ! j)) of
              Inl e \<Rightarrow> Inl e
            | Inr h \<Rightarrow> hi_loop row x (fmul hi h) js))"

definition propensity ::
  "int list list \<Rightarrow> float64 list \<Rightarrow> nat \<Rightarrow> int list \<Rightarrow> nat \<Rightarrow> error + float64" where
  "propensity sub_stoch rates number_species x i =
     (case hi_loop (sub_stoch ! i) x (Fin 1) [0..<number_species] of
        Inl e \<Rightarrow> Inl e
      | Inr hi \<Rightarrow> Inr (fmul hi (rates ! i)))"

fun propensities ::
  "int list list \<Rightarrow> float64 list \<Rightarrow> nat \<Rightarrow> int list \<Rightarrow> nat list \<Rightarrow> error + float64 list" where
  "propensities sub_stoch rates number_species x [] = Inr []"
| "propensities sub_stoch rates number_species x (i # is) =
     (case propensity sub_stoch rates number_species x i of
        Inl e \<Rightarrow> Inl e
      | Inr ai \<Rightarrow>
          (case propensities sub_stoch rates number_species x is of
             Inl e \<Rightarrow> Inl e
           | Inr as \<Rightarrow> Inr (ai # as)))"

definition py_sum :: "float64 list \<Rightarrow> float64" where
  "py_sum a = foldl fadd (Fin 0) a"

subsection \<open>\<^verbatim>\<open>gillespie_algo\<close>\<close>

text \<open>
  Arrays that a caller can share live in a store: a list of arrays, addressed by
  position. \<^verbatim>\<open>current_species = init\<close> binds a second name to the caller's array, and
  \<^verbatim>\<open>current_species += ...\<close> on a numpy array writes into that array; so the loop
  reads and writes the store at the address \<open>init_ref\<close>.

  The embedding covers the trajectory (\<^verbatim>\<open>store_time\<close>, \<^verbatim>\<open>store_number_molecules\<close>). The
  statistics computed beside it (\<^verbatim>\<open>filling_fraction\<close>, \<^verbatim>\<open>coefficient_variation\<close>, which
  are all that the argument \<^verbatim>\<open>s_i\<close> feeds) are numpy expressions that, for an \<^verbatim>\<open>s_i\<close>
  of matching length, warn but do not raise, with one exception that is modelled: see
  \<open>gillespie_algo\<close> below. The random draws, which the source takes from
  \<^verbatim>\<open>np.random.random_sample(n_max)\<close>, are the arguments \<open>r1\<close> and \<open>r2\<close>. The arguments
  are taken to have matching shapes (\<open>shapes_ok\<close> below), as \<^verbatim>\<open>reactions_stoch\<close> and the
  driver produce them, and \<open>init\<close> to be a numpy array, as the driver passes it.
\<close>

text \<open>
  The caller's array \<open>init\<close> is an \<^verbatim>\<open>int64\<close> array, as the driver builds it, and so are
  the stoichiometry matrices that \<^verbatim>\<open>reactions_stoch\<close> returns. The snapshots are kept
  in a \<^verbatim>\<open>float64\<close> array; a count below \<open>2^53\<close> in magnitude is stored there as it is,
  and the embedding keeps the snapshots as integers.
\<close>

type_synonym store = "int list list"

record run_env =
  init_ref :: nat
  rates :: "float64 list"
  sub_stoch :: "int list list"
  stoch :: "int list list"
  number_reactions :: nat
  number_species :: nat
  tmax :: float64
  n_max :: nat
  r1 :: "float64 list"
  r2 :: "float64 list"

record loop_state =
  heap :: store
  current_time :: float64
  n_counter :: nat
  store_time :: "float64 list"
  store_number_molecules :: "int list list"

text \<open>
  Step 3 of the loop body:
  \<^verbatim>\<open>
  current_time += new_time_difference
  current_species += np.transpose(stoch[next_r,:])
  n_counter += 1
  store_time[n_counter] = current_time
  store_number_molecules[n_counter,:] = current_species
  \<close>
\<close>

definition update_system :: "run_env \<Rightarrow> loop_state \<Rightarrow> float64 \<Rightarrow> nat \<Rightarrow> loop_state" where
  "update_system env st dt next_r =
     (let t = fadd (current_time st) dt;
          x = map2 (\<lambda>c s. wrap64 (c + s)) (heap st ! init_ref env) (stoch env ! next_r);
          n = Suc (n_counter st)
      in \<lparr> heap = (heap st)[init_ref env := x],
           current_time = t,
           n_counter = n,
           store_time = (store_time st)[n := t],
           store_number_molecules = (store_number_molecules st)[n := x] \<rparr>)"

text \<open>
  \<^verbatim>\<open>while (current_time < tmax) and (n_counter < n_max-1):\<close> with steps 1 to 3 as its
  body. There is no other exit from the loop. For a network without reactions \<open>a0\<close> is
  the Python integer \<open>0\<close> (the \<^verbatim>\<open>sum\<close> of nothing), and \<^verbatim>\<open>1/a0\<close> in \<^verbatim>\<open>next_values\<close> raises
  \<^verbatim>\<open>ZeroDivisionError\<close>.
\<close>

function gillespie_loop :: "run_env \<Rightarrow> loop_state \<Rightarrow> error + loop_state" where
  "gillespie_loop env st =
     (if flt (current_time st) (tmax env) \<and> n_counter st < n_max env - 1
      then (case propensities (sub_stoch env) (rates env) (number_species env)
                   (heap st ! init_ref env) [0..<number_reactions env] of
              Inl e \<Rightarrow> Inl e
            | Inr a \<Rightarrow>
                if a = [] then Inl ZeroDivisionError
                else
                  (case next_values (py_sum a) a (r1 env ! n_counter st)
                          (r2 env ! n_counter st) of
                     Inl e \<Rightarrow> Inl e
                   | Inr (dt, next_r) \<Rightarrow> gillespie_loop env (update_system env st dt next_r)))
      else Inr st)"
  by pat_completeness auto
termination
  by (relation "measure (\<lambda>(env, st). n_max env - 1 - n_counter st)")
     (auto simp: update_system_def Let_def)

declare gillespie_loop.simps [simp del]

text \<open>\<^verbatim>\<open>stoch = sub_stoch + prod_stoch\<close>, and \<^verbatim>\<open>np.shape(stoch)[1]\<close>.\<close>

definition matrix_add :: "int list list \<Rightarrow> int list list \<Rightarrow> int list list" where
  "matrix_add A B = map2 (map2 (\<lambda>a b. wrap64 (a + b))) A B"

definition columns :: "int list list \<Rightarrow> nat" where
  "columns A = (case A of [] \<Rightarrow> 0 | row # _ \<Rightarrow> length row)"

record trajectory =
  caller_store :: store
  times :: "float64 list"
  molecules :: "int list list"

text \<open>
  Step 0, the initialisation: the constant parameters of a run, and the state in which
  the loop is entered (the initial time and counts are stored at index \<open>0\<close> of the
  zero-filled arrays).
\<close>

definition make_env ::
  "nat \<Rightarrow> float64 list \<Rightarrow> int list list \<Rightarrow> int list list \<Rightarrow> float64 \<Rightarrow> nat
     \<Rightarrow> float64 list \<Rightarrow> float64 list \<Rightarrow> run_env" where
  "make_env init rates' sub_stoch' prod_stoch tmax' n_max' r1' r2' =
     \<lparr> init_ref = init, rates = rates', sub_stoch = sub_stoch',
       stoch = matrix_add sub_stoch' prod_stoch,
       number_reactions = length (matrix_add sub_stoch' prod_stoch),
       number_species = columns (matrix_add sub_stoch' prod_stoch),
       tmax = tmax', n_max = n_max', r1 = r1', r2 = r2' \<rparr>"

definition initial_state :: "store \<Rightarrow> run_env \<Rightarrow> loop_state" where
  "initial_state h env =
     \<lparr> heap = h, current_time = Fin 0, n_counter = 0,
       store_time = (replicate (n_max env) (Fin 0))[0 := Fin 0],
       store_number_molecules =
         (replicate (n_max env) (replicate (number_species env) 0))[0 := h ! init_ref env] \<rparr>"

text \<open>
  The whole function. \<^verbatim>\<open>store_time[n_counter] = current_time\<close> before the loop raises
  \<^verbatim>\<open>IndexError\<close> for \<open>n_max = 0\<close>. After the loop the arrays are cut to
  \<^verbatim>\<open>[:n_counter]\<close>. When the loop body never ran, \<open>current_time\<close> is still the Python
  integer \<open>0\<close> and \<^verbatim>\<open>average\<close> is the integer \<open>0\<close> (the built-in \<^verbatim>\<open>sum\<close> of no rows),
  so \<^verbatim>\<open>average /= current_time\<close> raises \<^verbatim>\<open>ZeroDivisionError\<close>. \<open>caller_store\<close> is the store
  as the caller finds it after the call.
\<close>

definition gillespie_algo ::
  "store \<Rightarrow> nat \<Rightarrow> float64 list \<Rightarrow> int list list \<Rightarrow> int list list \<Rightarrow> float64 \<Rightarrow> nat
     \<Rightarrow> float64 list \<Rightarrow> float64 list \<Rightarrow> error + trajectory" where
  "gillespie_algo h init rates' sub_stoch' prod_stoch tmax' n_max' r1' r2' =
     (let env = make_env init rates' sub_stoch' prod_stoch tmax' n_max' r1' r2'
      in if n_max' = 0 then Inl IndexError
         else
           (case gillespie_loop env (initial_state h env) of
              Inl e \<Rightarrow> Inl e
            | Inr st \<Rightarrow>
                if n_counter st = 0 then Inl ZeroDivisionError
                else Inr \<lparr> caller_store = heap st,
                           times = take (n_counter st) (store_time st),
                           molecules = take (n_counter st) (store_number_molecules st) \<rparr>))"

text \<open>The shapes and signs of a call with valid inputs.\<close>

subsection \<open>The module-level driver\<close>



subsection \<open>\<^verbatim>\<open>reactions_stoch\<close>\<close>

text \<open>
  Strings are ASCII, as the reaction grammar is. \<^verbatim>\<open>str.split\<close> with a one-character
  separator, and with the separator \<^verbatim>\<open>"->"\<close>:
\<close>

fun split_char :: "char \<Rightarrow> string \<Rightarrow> string \<Rightarrow> string list" where
  "split_char c acc [] = [rev acc]"
| "split_char c acc (x # xs) =
     (if x = c then rev acc # split_char c [] xs else split_char c (x # acc) xs)"

definition str_split :: "char \<Rightarrow> string \<Rightarrow> string list" where
  "str_split c s = split_char c [] s"

fun split_arrow_acc :: "string \<Rightarrow> string \<Rightarrow> string list" where
  "split_arrow_acc acc [] = [rev acc]"
| "split_arrow_acc acc [x] = [rev (x # acc)]"
| "split_arrow_acc acc (x # y # xs) =
     (if x = CHR ''-'' \<and> y = CHR ''>'' then rev acc # split_arrow_acc [] xs
      else split_arrow_acc (x # acc) (y # xs))"

definition split_arrow :: "string \<Rightarrow> string list" where
  "split_arrow s = split_arrow_acc [] s"

text \<open>\<^verbatim>\<open>str.isdigit\<close> and the value of a string of digits.\<close>

definition is_digit :: "char \<Rightarrow> bool" where
  "is_digit c = (c \<in> set ''0123456789'')"

definition isdigit :: "string \<Rightarrow> bool" where
  "isdigit s = (s \<noteq> [] \<and> list_all is_digit s)"

definition digit_value :: "char \<Rightarrow> int" where
  "digit_value c = int (of_char c) - 48"

fun digits_value :: "int \<Rightarrow> string \<Rightarrow> int" where
  "digits_value acc [] = acc"
| "digits_value acc (c # cs) = digits_value (10 * acc + digit_value c) cs"

text \<open>
  \<^verbatim>\<open>int(s)\<close> on a string: surrounding whitespace is dropped, one sign is allowed, and
  the digits may be grouped by single underscores; anything else raises
  \<^verbatim>\<open>ValueError\<close>. (The interpreter's limit on the number of digits is not modelled.)
\<close>

definition is_space :: "char \<Rightarrow> bool" where
  "is_space c = (c \<in> set [CHR '' '', CHR 0x09, CHR 0x0A, CHR 0x0B, CHR 0x0C, CHR 0x0D])"

definition strip :: "string \<Rightarrow> string" where
  "strip s = rev (dropWhile is_space (rev (dropWhile is_space s)))"

definition py_int :: "string \<Rightarrow> error + int" where
  "py_int s =
     (let t = strip s;
          sign = (case t of c # _ \<Rightarrow> if c = CHR ''-'' then - 1 else 1 | [] \<Rightarrow> 1);
          body = (case t of c # cs \<Rightarrow> if c = CHR ''-'' \<or> c = CHR ''+'' then cs else t | [] \<Rightarrow> t);
          groups = str_split (CHR ''_'') body
      in if list_all isdigit groups then Inr (sign * digits_value 0 (concat groups))
         else Inl ValueError)"

text \<open>
  The body of the loops over the terms of one side:
  \<^verbatim>\<open>
  number_reaction = []
  j = j.split("X")
  if j[0].isdigit():
      number_reaction.append(int(j[0]))
  else:
      number_reaction.append(1)
  if len(j) == 2:
      number_reaction.append(int(j[1]))
      if int(j[1]) > total_number_species:
          total_number_species = int(j[1])
  if len(number_reaction) == 2:
      sub_one_reaction.append(number_reaction)
  \<close>
  The result is the pair (coefficient, species) that is appended, or \<open>None\<close> when nothing
  is appended.
\<close>

definition parse_term :: "string \<Rightarrow> error + (int \<times> int) option" where
  "parse_term t =
     (case str_split (CHR ''X'') t of
        [] \<Rightarrow> Inl IndexError
      | j0 # rest \<Rightarrow>
          (let c = (if isdigit j0 then digits_value 0 j0 else 1)
           in case rest of
                [j1] \<Rightarrow> (case py_int j1 of Inl e \<Rightarrow> Inl e | Inr k \<Rightarrow> Inr (Some (c, k)))
              | _ \<Rightarrow> Inr None))"

text \<open>The loop over the terms of one side, and the loop over the sides.\<close>

fun parse_terms :: "string list \<Rightarrow> error + (int \<times> int) list" where
  "parse_terms [] = Inr []"
| "parse_terms (j # js) =
     (case parse_term j of
        Inl e \<Rightarrow> Inl e
      | Inr None \<Rightarrow> parse_terms js
      | Inr (Some nr) \<Rightarrow>
          (case parse_terms js of Inl e \<Rightarrow> Inl e | Inr nrs \<Rightarrow> Inr (nr # nrs)))"

text \<open>
  A side from which nothing was appended is itself not appended
  (\<^verbatim>\<open>if len(sub_one_reaction) >= 1:\<close>).
\<close>

fun parse_sides :: "string list list \<Rightarrow> error + (int \<times> int) list list" where
  "parse_sides [] = Inr []"
| "parse_sides (i # is) =
     (case parse_terms i of
        Inl e \<Rightarrow> Inl e
      | Inr one_reaction \<Rightarrow>
          (case parse_sides is of
             Inl e \<Rightarrow> Inl e
           | Inr number_reaction \<Rightarrow>
               Inr (if length one_reaction \<ge> 1 then one_reaction # number_reaction
                    else number_reaction)))"

text \<open>\<^verbatim>\<open>total_number_species\<close>: the largest species number seen, starting from \<open>0\<close>.\<close>

definition total_species :: "(int \<times> int) list list \<Rightarrow> int \<Rightarrow> int" where
  "total_species number_reaction t0 = foldl max t0 (map snd (concat number_reaction))"

text \<open>
  \<^verbatim>\<open>
  one_reaction = reactions.split(",")
  for i in one_reaction:
      s_p = i.split("->")
      substrates.append(s_p[0])
      products.append(s_p[1])
  \<close>
\<close>

fun split_sides :: "string list \<Rightarrow> error + (string \<times> string) list" where
  "split_sides [] = Inr []"
| "split_sides (i # is) =
     (case split_arrow i of
        s # p # _ \<Rightarrow>
          (case split_sides is of Inl e \<Rightarrow> Inl e | Inr sps \<Rightarrow> Inr ((s, p) # sps))
      | _ \<Rightarrow> Inl IndexError)"

text \<open>
  Filling the arrays:
  \<^verbatim>\<open>
  for reaction in range(len(sub_number_reaction)):
      for species in sub_number_reaction[reaction]:
          sub_stoch[reaction][species[1]-1] = int(-species[0])
  \<close>
  and the same for the products with \<^verbatim>\<open>int(species[0])\<close>. An index below zero counts
  from the end of the row; an index outside the row raises \<^verbatim>\<open>IndexError\<close>, and a
  value outside the range of \<^verbatim>\<open>int64\<close> raises \<^verbatim>\<open>OverflowError\<close>.
\<close>

fun fill_row :: "int \<Rightarrow> int list \<Rightarrow> (int \<times> int) list \<Rightarrow> error + int list" where
  "fill_row sign row [] = Inr row"
| "fill_row sign row ((c, k) # species) =
     (case py_position (length row) (k - 1) of
        None \<Rightarrow> Inl IndexError
      | Some j \<Rightarrow>
          if - (2 ^ 63) \<le> sign * c \<and> sign * c < 2 ^ 63
          then fill_row sign (row[j := sign * c]) species
          else Inl OverflowError)"

fun fill_matrix ::
  "int \<Rightarrow> int list list \<Rightarrow> (int \<times> int) list list \<Rightarrow> nat list \<Rightarrow> error + int list list" where
  "fill_matrix sign A number_reaction [] = Inr A"
| "fill_matrix sign A number_reaction (reaction # reactions) =
     (case fill_row sign (A ! reaction) (number_reaction ! reaction) of
        Inl e \<Rightarrow> Inl e
      | Inr row \<Rightarrow> fill_matrix sign (A[reaction := row]) number_reaction reactions)"

definition reactions_stoch :: "string \<Rightarrow> error + (int list list \<times> int list list)" where
  "reactions_stoch reactions =
     (let one_reaction = str_split (CHR '','') reactions
      in case split_sides one_reaction of
           Inl e \<Rightarrow> Inl e
         | Inr sps \<Rightarrow>
             (case parse_sides (map (\<lambda>(s, p). str_split (CHR ''+'') s) sps) of
                Inl e \<Rightarrow> Inl e
              | Inr sub_number_reaction \<Rightarrow>
                  (case parse_sides (map (\<lambda>(s, p). str_split (CHR ''+'') p) sps) of
                     Inl e \<Rightarrow> Inl e
                   | Inr prod_number_reaction \<Rightarrow>
                       (let total_number_species =
                              nat (total_species prod_number_reaction
                                     (total_species sub_number_reaction 0));
                            zeros = replicate (length one_reaction)
                                      (replicate total_number_species 0)
                        in case fill_matrix (- 1) zeros sub_number_reaction
                                  [0..<length sub_number_reaction] of
                             Inl e \<Rightarrow> Inl e
                           | Inr sub_stoch' \<Rightarrow>
                               (case fill_matrix 1 zeros prod_number_reaction
                                       [0..<length prod_number_reaction] of
                                  Inl e \<Rightarrow> Inl e
                                | Inr prod_stoch \<Rightarrow> Inr (sub_stoch', prod_stoch))))))"


subsection \<open>Predicates used in the statements\<close>

text \<open>
  \<open>is_pascal n k b\<close>: the list \<open>b\<close> of \<open>calculate_hi\<close>, of length \<open>n + 1\<close>, holds row \<open>k\<close>
  of Pascal's triangle in its first \<open>k + 1\<close> places and zeros after them.
\<close>

definition is_pascal :: "nat \<Rightarrow> nat \<Rightarrow> int list \<Rightarrow> bool" where
  "is_pascal n k b \<longleftrightarrow>
     length b = Suc n \<and> (\<forall>t\<le>n. b ! t = (if t \<le> k then int (k choose t) else 0))"



section \<open>Verification\<close>

subsection \<open>Rounding to binary64\<close>

lemma round_even_of_int [simp]: "round_even (of_int k) = k"
  by (simp add: round_even_def)

lemma round_even_ge: "of_int n \<le> t \<Longrightarrow> n \<le> round_even t"
proof -
  assume "of_int n \<le> t"
  then have "n \<le> \<lfloor>t\<rfloor>" by (simp add: le_floor_iff)
  then show ?thesis by (simp add: round_even_def)
qed

lemma round_even_le: "t \<le> of_int n \<Longrightarrow> round_even t \<le> n"
proof -
  assume le: "t \<le> of_int n"
  then have f: "\<lfloor>t\<rfloor> \<le> n" by (simp add: floor_le_iff)
  show ?thesis
  proof (cases "\<lfloor>t\<rfloor> = n")
    case True
    then have "t = of_int n" using le by (metis of_int_floor_le order_antisym)
    then show ?thesis by simp
  next
    case False
    with f have "\<lfloor>t\<rfloor> + 1 \<le> n" by simp
    then show ?thesis using f by (simp add: round_even_def)
  qed
qed

lemma powr2_int: "2 powr (real_of_int e) = (2::real) powi e"
  by (simp add: powr_real_of_int')

lemma floor_log2_bounds:
  assumes "0 < x"
  shows "2 powi \<lfloor>log 2 x\<rfloor> \<le> x" "x < 2 powi (\<lfloor>log 2 x\<rfloor> + 1)"
proof -
  have "2 powr (of_int \<lfloor>log 2 x\<rfloor>) \<le> x \<and> x < 2 powr (of_int (\<lfloor>log 2 x\<rfloor> + 1))"
    using floor_log_eq_powr_iff[of x 2 "\<lfloor>log 2 x\<rfloor>"] assms by simp
  then show "2 powi \<lfloor>log 2 x\<rfloor> \<le> x" "x < 2 powi (\<lfloor>log 2 x\<rfloor> + 1)"
    unfolding powr2_int by simp_all
qed

lemma floor_log2_eqI:
  assumes "2 powi e \<le> x" "x < 2 powi (e + 1)"
  shows "\<lfloor>log 2 x\<rfloor> = e"
proof -
  have "(0::real) < 2 powi e" by simp
  then have "0 < x" using assms(1) by linarith
  moreover have "2 powr (of_int e) \<le> x \<and> x < 2 powr (of_int (e + 1))"
    unfolding powr2_int using assms by simp
  ultimately show ?thesis
    using floor_log_eq_powr_iff[of x 2 e] by simp
qed

lemma powi2_less_cancel: "(2::real) powi a < 2 powi b \<Longrightarrow> a < b"
proof (rule ccontr)
  assume "2 powi a < (2::real) powi b" and "\<not> a < b"
  then have "(2::real) powi b \<le> 2 powi a" by (intro power_int_increasing) auto
  with \<open>2 powi a < (2::real) powi b\<close> show False by simp
qed

lemma powi2_nat: "0 \<le> j \<Longrightarrow> (2::real) powi j = of_int (2 ^ nat j)"
  by (simp add: power_int_def)

lemma rnd_real_multiple:
  assumes "ulp_exp x \<le> j" and "x = of_int k * 2 powi j"
  shows "rnd_real x = x"
proof -
  let ?u = "ulp_exp x"
  have "2 powi j = (2::real) powi (j - ?u) * 2 powi ?u"
    by (simp add: power_int_add[symmetric])
  moreover have "(2::real) powi ?u \<noteq> 0" by simp
  ultimately have "x / 2 powi ?u = of_int k * 2 powi (j - ?u)"
    unfolding assms(2) by (metis mult.assoc nonzero_eq_divide_eq)
  also have "\<dots> = of_int (k * 2 ^ nat (j - ?u))"
    using assms(1) by (simp add: powi2_nat)
  finally have "round_even (x / 2 powi ?u) = k * 2 ^ nat (j - ?u)"
    by (simp only: round_even_of_int)
  then have "rnd_real x = of_int (k * 2 ^ nat (j - ?u)) * 2 powi ?u"
    by (simp add: rnd_real_def)
  also have "\<dots> = of_int k * (2 powi (j - ?u) * 2 powi ?u)"
    using assms(1) by (simp add: powi2_nat)
  also have "\<dots> = x"
    using assms(2) by (simp add: power_int_add[symmetric])
  finally show ?thesis .
qed

lemma ulp_exp_dyadic:
  assumes "\<bar>k\<bar> < 2 ^ 53" and "- 1074 \<le> j" and "k \<noteq> 0"
  shows "ulp_exp (of_int k * 2 powi j) \<le> j"
proof -
  let ?x = "of_int k * (2::real) powi j"
  have pos: "0 < \<bar>?x\<bar>" using assms(3) by simp
  have "\<bar>?x\<bar> = of_int \<bar>k\<bar> * 2 powi j" by (simp add: abs_mult)
  also have "\<dots> < 2 ^ 53 * 2 powi j"
  proof -
    have "real_of_int \<bar>k\<bar> < 2 ^ 53" using assms(1) by (metis of_int_less_numeral_power_cancel_iff)
    then show ?thesis by simp
  qed
  also have "\<dots> = 2 powi (53 + j)" by (simp add: power_int_add)
  finally have "\<bar>?x\<bar> < 2 powi (53 + j)" .
  with floor_log2_bounds(1)[OF pos] have "(2::real) powi \<lfloor>log 2 \<bar>?x\<bar>\<rfloor> < 2 powi (53 + j)"
    by linarith
  then have "\<lfloor>log 2 \<bar>?x\<bar>\<rfloor> < 53 + j" by (rule powi2_less_cancel)
  then show ?thesis using assms(2) by (simp add: ulp_exp_def)
qed

lemma dyadic_bound:
  assumes "\<bar>k\<bar> < 2 ^ 53" and "j \<le> 971"
  shows "\<bar>of_int k * (2::real) powi j\<bar> < 2 ^ 1024"
proof -
  have "\<bar>of_int k * (2::real) powi j\<bar> = of_int \<bar>k\<bar> * 2 powi j" by (simp add: abs_mult)
  also have "\<dots> \<le> of_int \<bar>k\<bar> * 2 powi 971"
    using assms(2) by (intro mult_left_mono power_int_increasing) auto
  also have "\<dots> < 2 ^ 53 * 2 powi 971"
  proof -
    have "real_of_int \<bar>k\<bar> < 2 ^ 53" using assms(1) by (metis of_int_less_numeral_power_cancel_iff)
    then show ?thesis by simp
  qed
  also have "\<dots> = 2 ^ 1024" by (simp add: power_int_def flip: power_add)
  finally show ?thesis .
qed

lemma rnd_double: "is_double y \<Longrightarrow> rnd y = Fin y"
proof -
  assume "is_double y"
  then obtain k j where kj: "\<bar>k\<bar> < 2 ^ 53" "- 1074 \<le> j" "j \<le> 971" "y = of_int k * 2 powi j"
    by (auto simp: is_double_def)
  have "rnd_real y = y"
  proof (cases "k = 0")
    case True
    then show ?thesis using kj(4) round_even_of_int[of 0] by (simp add: rnd_real_def)
  next
    case False
    from ulp_exp_dyadic[OF kj(1,2) False] kj(4) show ?thesis
      by (intro rnd_real_multiple[of y j k]) auto
  qed
  moreover have "\<bar>y\<bar> < 2 ^ 1024" unfolding kj(4) using kj(1,3) by (rule dyadic_bound)
  ultimately show ?thesis by (simp add: rnd_def)
qed

lemma is_double_of_int: "\<bar>k\<bar> < 2 ^ 53 \<Longrightarrow> is_double (of_int k)"
  unfolding is_double_def by (rule exI[of _ k], rule exI[of _ 0]) simp

lemma rnd_of_int: "\<bar>k\<bar> < 2 ^ 53 \<Longrightarrow> rnd (of_int k) = Fin (of_int k)"
  by (simp add: rnd_double is_double_of_int)

lemma scaled_ge_2_52:
  assumes "0 < x" and "- 1074 < ulp_exp x"
  shows "2 ^ 52 \<le> x / 2 powi ulp_exp x" and "2 powi (52 + ulp_exp x) \<le> x"
proof -
  have u: "ulp_exp x = \<lfloor>log 2 x\<rfloor> - 52"
    using assms by (simp add: ulp_exp_def max_def split: if_splits)
  have "2 powi \<lfloor>log 2 x\<rfloor> \<le> x" using floor_log2_bounds(1)[OF assms(1)] .
  then show le: "2 powi (52 + ulp_exp x) \<le> x" by (simp add: u)
  have "(2::real) powi (52 + ulp_exp x) = 2 ^ 52 * 2 powi ulp_exp x"
    by (simp add: power_int_add)
  with le show "2 ^ 52 \<le> x / 2 powi ulp_exp x"
    by (simp add: pos_le_divide_eq)
qed

lemma double_div_ulp:
  assumes "u \<le> j"
  shows "of_int k * (2::real) powi j / 2 powi u = of_int (k * 2 ^ nat (j - u))"
proof -
  have "2 powi j = (2::real) powi (j - u) * 2 powi u"
    by (simp add: power_int_add[symmetric])
  moreover have "(2::real) powi u \<noteq> 0" by simp
  ultimately have "of_int k * (2::real) powi j / 2 powi u = of_int k * 2 powi (j - u)"
    by (metis mult.assoc nonzero_eq_divide_eq)
  then show ?thesis using assms by (simp add: powi2_nat)
qed

lemma double_less_pow:
  assumes "\<bar>k\<bar> < 2 ^ 53" and "j < u"
  shows "of_int k * (2::real) powi j < 2 powi (52 + u)"
proof -
  have "real_of_int k < 2 ^ 53"
    using assms(1) by (metis abs_less_iff of_int_less_numeral_power_cancel_iff)
  then have "of_int k * (2::real) powi j < 2 ^ 53 * 2 powi j" by simp
  also have "\<dots> = 2 powi (53 + j)" by (simp add: power_int_add)
  also have "\<dots> \<le> 2 powi (52 + u)"
    using assms(2) by (intro power_int_increasing) auto
  finally show ?thesis .
qed

lemma rnd_real_lower:
  assumes "is_double d" and "0 \<le> d" and "d \<le> x"
  shows "d \<le> rnd_real x"
proof -
  let ?u = "ulp_exp x"
  obtain k j where kj: "\<bar>k\<bar> < 2 ^ 53" "- 1074 \<le> j" "d = of_int k * 2 powi j"
    using assms(1) by (auto simp: is_double_def)
  have q: "(0::real) < 2 powi ?u" by simp
  show ?thesis
  proof (cases "?u \<le> j")
    case True
    have "d / 2 powi ?u = of_int (k * 2 ^ nat (j - ?u))"
      unfolding kj(3) using True by (rule double_div_ulp)
    moreover have "d / 2 powi ?u \<le> x / 2 powi ?u"
      using assms(3) q by (simp add: divide_right_mono)
    ultimately have "k * 2 ^ nat (j - ?u) \<le> round_even (x / 2 powi ?u)"
      by (intro round_even_ge) simp
    then have "of_int (k * 2 ^ nat (j - ?u)) * 2 powi ?u \<le> rnd_real x"
      unfolding rnd_real_def using q by (simp del: of_int_mult of_int_power)
    moreover have "of_int (k * 2 ^ nat (j - ?u)) * 2 powi ?u = d"
      using \<open>d / 2 powi ?u = of_int (k * 2 ^ nat (j - ?u))\<close> q
      by (metis nonzero_divide_eq_eq less_numeral_extra(3))
    ultimately show ?thesis by simp
  next
    case False
    then have ju: "j < ?u" by simp
    with kj(2) have big: "- 1074 < ?u" by simp
    have dlt: "d < 2 powi (52 + ?u)" unfolding kj(3) using kj(1) ju by (rule double_less_pow)
    show ?thesis
    proof (cases "0 < x")
      case True
      from scaled_ge_2_52(1)[OF True big] have "2 ^ 52 \<le> round_even (x / 2 powi ?u)"
        by (intro round_even_ge) simp
      then have "(2::real) ^ 52 \<le> of_int (round_even (x / 2 powi ?u))"
        by (metis of_int_le_iff of_int_numeral of_int_power)
      then have "2 ^ 52 * 2 powi ?u \<le> rnd_real x"
        unfolding rnd_real_def using q by simp
      moreover have "(2::real) powi (52 + ?u) = 2 ^ 52 * 2 powi ?u"
        by (simp add: power_int_add)
      ultimately show ?thesis using dlt by linarith
    next
      case False
      with assms(2,3) have "x = 0" "d = 0" by auto
      then show ?thesis using round_even_of_int[of 0] by (simp add: rnd_real_def)
    qed
  qed
qed

lemma rnd_real_upper:
  assumes "is_double d" and "0 < x" and "x \<le> d"
  shows "rnd_real x \<le> d"
proof -
  let ?u = "ulp_exp x"
  obtain k j where kj: "\<bar>k\<bar> < 2 ^ 53" "- 1074 \<le> j" "d = of_int k * 2 powi j"
    using assms(1) by (auto simp: is_double_def)
  have q: "(0::real) < 2 powi ?u" by simp
  have "?u \<le> j"
  proof (rule ccontr)
    assume "\<not> ?u \<le> j"
    then have ju: "j < ?u" by simp
    with kj(2) have big: "- 1074 < ?u" by simp
    have "d < 2 powi (52 + ?u)" unfolding kj(3) using kj(1) ju by (rule double_less_pow)
    with scaled_ge_2_52(2)[OF assms(2) big] assms(3) show False by linarith
  qed
  then have dk: "d / 2 powi ?u = of_int (k * 2 ^ nat (j - ?u))"
    unfolding kj(3) by (rule double_div_ulp)
  moreover have "x / 2 powi ?u \<le> d / 2 powi ?u"
    using assms(3) q by (simp add: divide_right_mono)
  ultimately have "round_even (x / 2 powi ?u) \<le> k * 2 ^ nat (j - ?u)"
    by (intro round_even_le) simp
  then have "rnd_real x \<le> of_int (k * 2 ^ nat (j - ?u)) * 2 powi ?u"
    unfolding rnd_real_def using q by (simp del: of_int_mult of_int_power)
  moreover have "of_int (k * 2 ^ nat (j - ?u)) * 2 powi ?u = d"
    using dk q by (metis nonzero_divide_eq_eq less_numeral_extra(3))
  ultimately show ?thesis by simp
qed

lemma round_even_minus: "round_even (- t) = - round_even t"
proof (cases "t = of_int \<lfloor>t\<rfloor>")
  case True
  then obtain n where "t = of_int n" ..
  then have "round_even (- t) = round_even (of_int (- n))" by simp
  also have "\<dots> = - n" by (simp only: round_even_of_int)
  finally show ?thesis using \<open>t = of_int n\<close> by simp
next
  case False
  then have f: "\<lfloor>- t\<rfloor> = - \<lfloor>t\<rfloor> - 1"
    by (metis ceiling_altdef ceiling_def of_int_floor_cancel minus_diff_eq diff_minus_eq_add
          add_diff_cancel minus_minus uminus_add_conv_diff)
  show ?thesis
    unfolding round_even_def f by (auto simp: algebra_simps)
qed

lemma ulp_exp_minus [simp]: "ulp_exp (- x) = ulp_exp x"
  by (simp add: ulp_exp_def)

lemma rnd_real_minus: "rnd_real (- x) = - rnd_real x"
  by (simp add: rnd_real_def round_even_minus)

lemma is_double_minus: "is_double y \<Longrightarrow> is_double (- y)"
proof -
  assume "is_double y"
  then obtain k j where "\<bar>k\<bar> < 2 ^ 53" "- 1074 \<le> j" "j \<le> 971" "y = of_int k * 2 powi j"
    by (auto simp: is_double_def)
  then have "\<bar>- k\<bar> < 2 ^ 53 \<and> - 1074 \<le> j \<and> j \<le> 971 \<and> - y = of_int (- k) * 2 powi j"
    by simp
  then show ?thesis unfolding is_double_def by blast
qed

lemma is_double_0 [simp]: "is_double 0"
  using is_double_of_int[of 0] by simp

lemma scaled_less_2_53:
  assumes "0 < x"
  shows "x / 2 powi ulp_exp x < 2 ^ 53"
proof -
  have "\<bar>x\<bar> = x" using assms by simp
  then have "\<lfloor>log 2 x\<rfloor> + 1 \<le> 53 + ulp_exp x" by (simp add: ulp_exp_def)
  then have "(2::real) powi (\<lfloor>log 2 x\<rfloor> + 1) \<le> 2 powi (53 + ulp_exp x)"
    by (intro power_int_increasing) auto
  with floor_log2_bounds(2)[OF assms] have "x < 2 powi (53 + ulp_exp x)" by linarith
  also have "\<dots> = 2 ^ 53 * 2 powi ulp_exp x" by (simp add: power_int_add)
  finally show ?thesis by (simp add: pos_divide_less_eq)
qed

lemma rnd_real_pos_double:
  assumes "0 < x" and "rnd_real x < 2 ^ 1024"
  shows "is_double (rnd_real x)"
proof -
  let ?u = "ulp_exp x" and ?r = "round_even (x / 2 powi ulp_exp x)"
  have q: "(0::real) < 2 powi ?u" by simp
  have y: "rnd_real x = of_int ?r * 2 powi ?u" by (simp add: rnd_real_def)
  have r0: "0 \<le> ?r" using assms(1) q by (intro round_even_ge) simp
  have "x / 2 powi ?u \<le> of_int (2 ^ 53)" using scaled_less_2_53[OF assms(1)] by simp
  then have r53: "?r \<le> 2 ^ 53" by (rule round_even_le)
  have lo: "- 1074 \<le> ?u" by (simp add: ulp_exp_def)
  show ?thesis
  proof (cases "?r = 2 ^ 53")
    case True
    have "rnd_real x = 2 ^ 53 * 2 powi ?u" using y True by simp
    also have "\<dots> = 2 powi (53 + ?u)" by (simp add: power_int_add)
    finally have yy: "rnd_real x = 2 powi (53 + ?u)" .
    with assms(2) have "(2::real) powi (53 + ?u) < 2 powi 1024" by simp
    then have "53 + ?u < 1024" by (rule powi2_less_cancel)
    moreover have "rnd_real x = of_int (2 ^ 52) * 2 powi (?u + 1)"
      unfolding yy by (simp add: power_int_add)
    ultimately have "\<bar>(2::int) ^ 52\<bar> < 2 ^ 53 \<and> - 1074 \<le> ?u + 1 \<and> ?u + 1 \<le> 971 \<and>
        rnd_real x = of_int (2 ^ 52) * 2 powi (?u + 1)"
      using lo by simp
    then show ?thesis unfolding is_double_def by blast
  next
    case False
    with r53 r0 have rlt: "\<bar>?r\<bar> < 2 ^ 53" by simp
    have "?u \<le> 971"
    proof (rule ccontr)
      assume "\<not> ?u \<le> 971"
      then have big: "972 \<le> ?u" by simp
      then have "- 1074 < ?u" by simp
      from scaled_ge_2_52(1)[OF assms(1) this] have "2 ^ 52 \<le> ?r"
        by (intro round_even_ge) simp
      then have "(2::real) ^ 52 \<le> of_int ?r"
        by (metis of_int_le_iff of_int_numeral of_int_power)
      moreover have "(2::real) powi 972 \<le> 2 powi ?u"
        using big by (intro power_int_increasing) auto
      ultimately have "(2::real) ^ 52 * 2 powi 972 \<le> of_int ?r * 2 powi ?u"
        by (intro mult_mono) auto
      moreover have "(2::real) ^ 52 * 2 powi 972 = 2 ^ 1024"
        by (simp add: power_int_def flip: power_add)
      ultimately show False using assms(2) y by linarith
    qed
    with rlt lo y show ?thesis unfolding is_double_def by blast
  qed
qed

lemma rnd_is_double: "rnd x = Fin y \<Longrightarrow> is_double y"
proof -
  assume a: "rnd x = Fin y"
  then have y: "y = rnd_real x" and b: "\<bar>rnd_real x\<bar> < 2 ^ 1024"
    by (auto simp: rnd_def split: if_splits)
  consider "x = 0" | "0 < x" | "x < 0" by linarith
  then show ?thesis
  proof cases
    case 1
    then show ?thesis using y round_even_of_int[of 0] by (simp add: rnd_real_def)
  next
    case 2
    with b show ?thesis unfolding y by (intro rnd_real_pos_double) auto
  next
    case 3
    then have "0 < - x" by simp
    moreover have "rnd_real (- x) < 2 ^ 1024" using b by (simp add: rnd_real_minus)
    ultimately have "is_double (rnd_real (- x))" by (rule rnd_real_pos_double)
    then have "is_double (- rnd_real (- x))" by (rule is_double_minus)
    then show ?thesis by (simp add: y rnd_real_minus)
  qed
qed

lemma is_double_bound: "is_double d \<Longrightarrow> \<bar>d\<bar> < 2 ^ 1024"
  unfolding is_double_def using dyadic_bound by blast

lemma rnd_between:
  assumes "is_double lo" "is_double hi" "0 \<le> lo" "0 < x" "lo \<le> x" "x \<le> hi"
  shows "\<exists>v. rnd x = Fin v \<and> lo \<le> v \<and> v \<le> hi"
proof -
  have l: "lo \<le> rnd_real x" using assms(1,3,5) by (rule rnd_real_lower)
  have u: "rnd_real x \<le> hi" using assms(2,4,6) by (rule rnd_real_upper)
  have "\<bar>rnd_real x\<bar> < 2 ^ 1024" using l u assms(3) is_double_bound[OF assms(2)] by linarith
  then show ?thesis using l u by (simp add: rnd_def)
qed

lemma is_double_dyadic:
  "\<bar>k\<bar> < 2 ^ 53 \<Longrightarrow> - 1074 \<le> j \<Longrightarrow> j \<le> 971 \<Longrightarrow> is_double (of_int k * 2 powi j)"
  unfolding is_double_def by blast

lemma is_double_numeral: "numeral n < (2::int) ^ 53 \<Longrightarrow> is_double (numeral n)"
  using is_double_of_int[of "numeral n"] by simp

lemma is_double_1 [simp]: "is_double 1"
  using is_double_of_int[of 1] by simp

lemma is_double_half [simp]: "is_double (1 / 2)"
  using is_double_dyadic[of 1 "- 1"] by simp

lemma rnd_0 [simp]: "rnd 0 = Fin 0"
  by (simp add: rnd_double)

lemma rnd_1 [simp]: "rnd 1 = Fin 1"
  by (simp add: rnd_double)

lemma rnd_numeral [simp]: "numeral n < (2::int) ^ 53 \<Longrightarrow> rnd (numeral n) = Fin (numeral n)"
  by (simp add: rnd_double is_double_numeral)

lemma rnd_neg_numeral [simp]:
  "numeral n < (2::int) ^ 53 \<Longrightarrow> rnd (- numeral n) = Fin (- numeral n)"
  by (simp add: rnd_double is_double_numeral is_double_minus)

lemma rnd_neg_1 [simp]: "rnd (- 1) = Fin (- 1)"
  using rnd_double[OF is_double_minus[OF is_double_1]] by simp

lemma rnd_half [simp]: "rnd (1 / 2) = Fin (1 / 2)"
  by (simp add: rnd_double)

lemma rnd_neg_half [simp]: "rnd (- (1 / 2)) = Fin (- (1 / 2))"
  using rnd_double[OF is_double_minus[OF is_double_half]] by simp

lemma is_double_quarter [simp]: "is_double (1 / 4)"
  using is_double_dyadic[of 1 "- 2"] by simp

lemma ln_2_ge_quarter: "1 / 4 \<le> ln (2::real)"
proof -
  have "1 / 2 - (1 / 2)\<^sup>2 \<le> ln (1 + 1 / 2 :: real)"
    by (rule ln_one_plus_pos_lower_bound) simp_all
  also have "\<dots> \<le> ln 2" by simp
  finally show ?thesis by (simp add: power2_eq_square)
qed

lemma flog_2: "\<exists>v. flog (Fin 2) = Fin v \<and> 1 / 4 \<le> v \<and> v \<le> 1"
proof -
  have "ln (2::real) \<le> 1" using ln_2_less_1 by simp
  moreover have "0 < ln (2::real)" by simp
  ultimately have "\<exists>v. rnd (ln 2) = Fin v \<and> 1 / 4 \<le> v \<and> v \<le> 1"
    using ln_2_ge_quarter by (intro rnd_between) auto
  then show ?thesis by simp
qed

lemma dt_zero_total: "new_time_difference (Fin 0) (Fin (1 / 2)) = PInf"
proof -
  obtain v where "flog (Fin 2) = Fin v" "1 / 4 \<le> v" using flog_2 by blast
  then show ?thesis
    by (simp add: new_time_difference_def signed_inf_def)
qed

lemma rnd_eval:
  assumes "2 powi e \<le> \<bar>x\<bar>" and "\<bar>x\<bar> < 2 powi (e + 1)" and "- 1022 \<le> e"
    and "round_even (x / 2 powi (e - 52)) = r" and "\<bar>r\<bar> < 2 ^ 53" and "e \<le> 1023"
  shows "rnd x = Fin (of_int r * 2 powi (e - 52))"
proof -
  have "\<lfloor>log 2 \<bar>x\<bar>\<rfloor> = e" using assms(1,2) by (rule floor_log2_eqI)
  then have u: "ulp_exp x = e - 52" using assms(3) by (simp add: ulp_exp_def)
  have y: "rnd_real x = of_int r * 2 powi (e - 52)"
    by (simp add: rnd_real_def u assms(4))
  have "\<bar>of_int r * (2::real) powi (e - 52)\<bar> < 2 ^ 1024"
    using assms(5,6) by (intro dyadic_bound) auto
  then show ?thesis by (simp add: rnd_def y)
qed

lemma fact_23: "rnd (fact 23) = Fin 25852016738884978212864"
proof -
  have f: "(fact 23 :: real) = 25852016738884976640000"
    by (simp add: fact_numeral)
  have "rnd 25852016738884976640000 = Fin (of_int 6163601097794766 * 2 powi (74 - 52))"
    by (rule rnd_eval) (simp_all add: round_even_def)
  then show ?thesis by (simp add: f)
qed

subsection \<open>The event scheduler\<close>

lemma rnd_a_0:
  "rnd (3602879701896397 / 18014398509481984) = Fin (3602879701896397 / 18014398509481984)"
proof -
  have "rnd (3602879701896397 / 18014398509481984) = Fin (of_int 7205759403792794 * 2 powi (-3 - 52))"
    by (rule rnd_eval) (simp_all add: round_even_def)
  then show ?thesis by simp
qed

lemma sum_step_1:
  "rnd (10808639105689191 / 18014398509481984) = Fin (1351079888211149 / 2251799813685248)"
proof -
  have "rnd (10808639105689191 / 18014398509481984) = Fin (of_int 5404319552844596 * 2 powi (-1 - 52))"
    by (rule rnd_eval) (simp_all add: round_even_def)
  then show ?thesis by simp
qed

lemma sum_step_2:
  "rnd (27021597764222979 / 36028797018963968) = Fin (6755399441055745 / 9007199254740992)"
proof -
  have "rnd (27021597764222979 / 36028797018963968) = Fin (of_int 6755399441055745 * 2 powi (-1 - 52))"
    by (rule rnd_eval) (simp_all add: round_even_def)
  then show ?thesis by simp
qed

lemma scan_product:
  "rnd (60847228810955013523641567543295 / 81129638414606681695789005144064) = Fin (3 / 4)"
proof -
  have "rnd (60847228810955013523641567543295 / 81129638414606681695789005144064) = Fin (of_int 6755399441055744 * 2 powi (-1 - 52))"
    by (rule rnd_eval) (simp_all add: round_even_def)
  then show ?thesis by simp
qed

lemma scan_step_0:
  "rnd (9907919180215091 / 18014398509481984) = Fin (2476979795053773 / 4503599627370496)"
proof -
  have "rnd (9907919180215091 / 18014398509481984) = Fin (of_int 4953959590107546 * 2 powi (-1 - 52))"
    by (rule rnd_eval) (simp_all add: round_even_def)
  then show ?thesis by simp
qed

lemma scan_step_1:
  "rnd (1351079888211149 / 9007199254740992) = Fin (1351079888211149 / 9007199254740992)"
proof -
  have "rnd (1351079888211149 / 9007199254740992) = Fin (of_int 5404319552844596 * 2 powi (-3 - 52))"
    by (rule rnd_eval) (simp_all add: round_even_def)
  then show ?thesis by simp
qed

lemma scan_step_2:
  "rnd (1 / 36028797018963968) = Fin (1 / 36028797018963968)"
proof -
  have "rnd (1 / 36028797018963968) = Fin (of_int 4503599627370496 * 2 powi (-55 - 52))"
    by (rule rnd_eval) (simp_all add: round_even_def)
  then show ?thesis by simp
qed

lemma sum_a: "py_sum [Fin (3602879701896397 / 18014398509481984), Fin (3602879701896397 / 9007199254740992), Fin (5404319552844595 / 36028797018963968)] = Fin (6755399441055745 / 9007199254740992)"
  by (simp add: py_sum_def rnd_a_0 sum_step_1 sum_step_2)

text \<open>
  Claim C1. For every propensity vector \<open>a\<close> with total \<open>a0 = sum(a) > 0\<close> and draws in
  the open interval \<open>(0, 1)\<close>, \<^verbatim>\<open>next_values\<close> is to return the pair \<open>(dt, mu)\<close> with \<open>mu\<close>
  the smallest index whose partial sum reaches \<open>r2 * a0\<close>. The scan subtracts the
  entries from \<open>r2 * a0\<close> in \<^verbatim>\<open>float64\<close> and has no bound on \<open>mu\<close>. For
  \<^verbatim>\<open>a = [0.2, 0.4, 0.15]\<close>, its sum \<^verbatim>\<open>a0 = 0.7500000000000001\<close> and the draw
  \<open>r2 = 1 - 2^-53\<close> the product rounds to \<open>0.75\<close>, the remainder after the last entry is
  \<open>2^-55 > 0\<close>, and \<^verbatim>\<open>a[3]\<close> raises \<^verbatim>\<open>IndexError\<close>: nothing is returned.
\<close>

theorem next_values_scan_overruns:
  "py_sum [Fin (3602879701896397 / 18014398509481984), Fin (3602879701896397 / 9007199254740992), Fin (5404319552844595 / 36028797018963968)] = Fin (6755399441055745 / 9007199254740992) \<and>
   next_values (Fin (6755399441055745 / 9007199254740992)) [Fin (3602879701896397 / 18014398509481984), Fin (3602879701896397 / 9007199254740992), Fin (5404319552844595 / 36028797018963968)] (Fin (1 / 2)) (Fin (9007199254740991 / 9007199254740992)) = Inl IndexError"
  by (simp add: sum_a next_values_def scan_mu.simps fsub_def
        scan_product scan_step_0 scan_step_1 scan_step_2)

subsection \<open>The binomial row of \<^verbatim>\<open>calculate_hi\<close>\<close>

lemma pascal_inner_length: "length (pascal_inner b j) = length b"
  by (induction j arbitrary: b) auto

lemma pascal_inner_nth:
  "j < length b \<Longrightarrow> t < length b \<Longrightarrow>
   pascal_inner b j ! t = (if 1 \<le> t \<and> t \<le> j then b ! t + b ! (t - 1) else b ! t)"
proof (induction j arbitrary: b)
  case 0
  then show ?case by simp
next
  case (Suc j)
  let ?b = "b[Suc j := b ! Suc j + b ! j]"
  have "pascal_inner b (Suc j) ! t = pascal_inner ?b j ! t" by simp
  also have "\<dots> = (if 1 \<le> t \<and> t \<le> j then ?b ! t + ?b ! (t - 1) else ?b ! t)"
    using Suc.prems by (intro Suc.IH) auto
  also have "\<dots> = (if 1 \<le> t \<and> t \<le> Suc j then b ! t + b ! (t - 1) else b ! t)"
    using Suc.prems by (auto simp: nth_list_update)
  finally show ?case .
qed

lemma pascal_step_ok:
  assumes "is_pascal n k b" "Suc k \<le> n"
  shows "is_pascal n (Suc k) (pascal_step b (Suc k))"
proof -
  let ?b = "b[Suc k := 1]"
  have len: "length b = Suc n" and vals: "\<And>t. t \<le> n \<Longrightarrow> b ! t = (if t \<le> k then int (k choose t) else 0)"
    using assms(1) by (auto simp: is_pascal_def)
  have "pascal_step b (Suc k) ! t = (if t \<le> Suc k then int (Suc k choose t) else 0)" if "t \<le> n" for t
  proof -
    have "pascal_step b (Suc k) ! t = (if 1 \<le> t \<and> t \<le> k then ?b ! t + ?b ! (t - 1) else ?b ! t)"
      unfolding pascal_step_def using len assms(2) that
      by (simp add: pascal_inner_nth)
    also have "\<dots> = (if t \<le> Suc k then int (Suc k choose t) else 0)"
    proof (cases "1 \<le> t \<and> t \<le> k")
      case True
      then obtain s where s: "t = Suc s" by (cases t) auto
      with True that assms(2) show ?thesis
        using vals[of t] vals[of s] by (simp add: nth_list_update)
    next
      case False
      then consider "t = 0" | "t = Suc k" | "Suc k < t" by linarith
      then show ?thesis
      proof cases
        case 1
        then show ?thesis using vals[of 0] by (simp add: nth_list_update)
      next
        case 2
        then show ?thesis using len assms(2) by (simp add: nth_list_update)
      next
        case 3
        then show ?thesis using vals[of t] that by (simp add: nth_list_update)
      qed
    qed
    finally show ?thesis .
  qed
  then show ?thesis
    using len by (simp add: is_pascal_def pascal_step_def pascal_inner_length)
qed

lemma pascal_fold:
  "k \<le> n \<Longrightarrow> is_pascal n k (foldl pascal_step ((replicate (Suc n) 0)[0 := 1]) [1..<Suc k])"
proof (induction k)
  case 0
  show ?case by (auto simp: is_pascal_def nth_list_update)
next
  case (Suc k)
  have "[1..<Suc (Suc k)] = [1..<Suc k] @ [Suc k]" by simp
  then show ?case
    using pascal_step_ok[OF Suc.IH] Suc.prems by (simp del: upt_Suc)
qed

lemma pascal_row_length: "length (pascal_row n) = Suc n"
  using pascal_fold[of n n] by (simp add: is_pascal_def pascal_row_def)

lemma pascal_row_nth: "t \<le> n \<Longrightarrow> pascal_row n ! t = int (n choose t)"
  using pascal_fold[of n n] by (simp add: is_pascal_def pascal_row_def)

lemma choose_times_fact: "m \<le> n \<Longrightarrow> (n choose m) * fact m = fact n div fact (n - m)"
proof -
  assume "m \<le> n"
  then have "fact m * fact (n - m) * (n choose m) = (fact n :: nat)"
    by (rule binomial_fact_lemma)
  then have "((n choose m) * fact m) * fact (n - m) = (fact n :: nat)"
    by (simp add: ac_simps)
  then show ?thesis
    by (metis div_mult_self_is_m fact_gt_zero)
qed

lemma int_to_float_exact: "\<bar>k\<bar> < 2 ^ 53 \<Longrightarrow> int_to_float k = Inr (Fin (of_int k))"
  by (simp add: int_to_float_def rnd_of_int)

lemma rnd_of_nat: "n < 2 ^ 53 \<Longrightarrow> rnd (of_nat n) = Fin (of_nat n)"
proof -
  assume "n < 2 ^ 53"
  then have "\<bar>int n\<bar> < 2 ^ 53" by (metis abs_of_nat of_nat_less_numeral_power_cancel_iff)
  from rnd_of_int[OF this] show ?thesis by simp
qed

lemma calculate_hi_out_of_range:
  assumes "0 \<le> n" "n < m"
  shows "calculate_hi n m = Inl IndexError"
  using assms
  by (simp add: calculate_hi_def py_index_def py_position_def pascal_row_length)

lemma calculate_hi_exact:
  assumes "0 \<le> m" "m \<le> n" and "(nat n choose nat m) * fact (nat m) < 2 ^ 53"
  shows "calculate_hi n m = Inr (Fin (of_nat ((nat n choose nat m) * fact (nat m))))"
proof -
  let ?c = "nat n choose nat m" and ?f = "fact (nat m) :: nat"
  have le: "nat m \<le> nat n" using assms(1,2) by simp
  have cpos: "1 \<le> ?c" using le by (simp add: Suc_leI)
  have fpos: "1 \<le> ?f" by (simp add: Suc_leI)
  have "?c \<le> ?c * ?f" using fpos by simp
  then have c: "?c < 2 ^ 53" using assms(3) by (rule le_less_trans)
  have "?f \<le> ?c * ?f" using cpos by simp
  then have f: "?f < 2 ^ 53" using assms(3) by (rule le_less_trans)
  have idx: "py_index (pascal_row (nat n)) m = Inr (int ?c)"
    using assms(1,2) by (simp add: py_index_def py_position_def pascal_row_length pascal_row_nth)
  have "\<bar>int ?c\<bar> < 2 ^ 53" using c by (metis abs_of_nat of_nat_less_numeral_power_cancel_iff)
  then have conv: "int_to_float (int ?c) = Inr (Fin (of_nat ?c))"
    using int_to_float_exact[of "int ?c"] by simp
  have fac: "factorial m = Fin (of_nat ?f)"
    using assms(1) rnd_of_nat[OF f] by (simp add: factorial_def)
  have "fmul (Fin (of_nat ?c)) (Fin (of_nat ?f)) = rnd (of_nat (?c * ?f))" by simp
  also have "\<dots> = Fin (of_nat (?c * ?f))" using assms(3) by (rule rnd_of_nat)
  finally show ?thesis
    using assms(1,2) by (simp add: calculate_hi_def idx conv fac del: of_nat_mult)
qed

text \<open>
  Claim C5, as stated (\<^verbatim>\<open>calculate_hi(n, m)\<close> equals \<open>C(n, m) * m!\<close> for all \<open>n \<ge> 1\<close> and
  \<open>0 \<le> m \<le> n\<close>), fails: the result is a \<^verbatim>\<open>float64\<close>, and \<open>23!\<close> is not one.
  \<^verbatim>\<open>calculate_hi(23, 23)\<close> is \<open>25852016738884978212864\<close>, not
  \<open>23! = 25852016738884976640000\<close>.
\<close>

theorem calculate_hi_rounds:
  "calculate_hi 23 23 = Inr (Fin 25852016738884978212864) \<and>
   calculate_hi 23 23 \<noteq> Inr (Fin (of_nat ((23 choose 23) * fact 23)))"
proof -
  have idx: "py_index (pascal_row (nat 23)) 23 = Inr 1"
    by (simp add: py_index_def py_position_def pascal_row_length pascal_row_nth)
  have d: "is_double 25852016738884978212864"
    using is_double_dyadic[of 6163601097794766 22] by simp
  have "calculate_hi 23 23 = Inr (Fin 25852016738884978212864)"
    using idx by (simp add: calculate_hi_def int_to_float_def factorial_def fact_23 rnd_double[OF d])
  moreover have "(25852016738884978212864::real) \<noteq> of_nat ((23 choose 23) * fact 23)"
    by (simp add: fact_numeral)
  ultimately show ?thesis by simp
qed

lemma choose_5_2: "(5 choose 2) = (10::nat)"
  by (simp add: eval_nat_numeral binomial_Suc_Suc)

lemma choose_4_3: "(4 choose 3) = (4::nat)"
  by (simp add: eval_nat_numeral binomial_Suc_Suc)

text \<open>
  Claim C5, amended. For all integers \<open>n \<ge> 1\<close> and \<open>0 \<le> m \<le> n\<close> with
  \<open>C(n, m) * m! < 2^53\<close>, \<^verbatim>\<open>calculate_hi(n, m)\<close> returns exactly
  \<open>C(n, m) * m! = n! / (n - m)!\<close>, the binomial coefficient being read off the row of
  Pascal's triangle that the function builds (\<open>pascal_row\<close>); in particular
  \<^verbatim>\<open>calculate_hi(5, 2) = 20\<close>. (Beyond \<open>2^53\<close> the result is the \<^verbatim>\<open>float64\<close> product of
  the converted binomial coefficient and the \<^verbatim>\<open>float64\<close> factorial.)
\<close>

theorem calculate_hi_ordered_selections:
  "(1 \<le> n \<and> 0 \<le> m \<and> m \<le> n \<and> (nat n choose nat m) * fact (nat m) < 2 ^ 53 \<longrightarrow>
      calculate_hi n m = Inr (Fin (of_nat ((nat n choose nat m) * fact (nat m)))) \<and>
      (nat n choose nat m) * fact (nat m) = fact (nat n) div fact (nat n - nat m)) \<and>
   calculate_hi 5 2 = Inr (Fin 20)"
proof -
  have "calculate_hi 5 2 = Inr (Fin (of_nat ((nat 5 choose nat 2) * fact (nat 2))))"
    by (rule calculate_hi_exact) (simp_all add: choose_5_2 fact_numeral)
  also have "\<dots> = Inr (Fin 20)"
    by (simp add: choose_5_2 fact_numeral)
  finally show ?thesis
    by (auto simp: calculate_hi_exact intro!: choose_times_fact)
qed

theorem calculate_hi_ordered_selections_witness:
  "(1::int) \<le> 4 \<and> (0::int) \<le> 3 \<and> (3::int) \<le> 4 \<and> (24::nat) < 2 ^ 53 \<and>
   calculate_hi 4 3 = Inr (Fin 24) \<and> (24::nat) = fact 4 div fact 1"
  using calculate_hi_ordered_selections[of 4 3]
  by (simp add: choose_4_3 fact_numeral)

subsection \<open>Propensities\<close>








text \<open>
  Claim C3. If some substrate species \<open>s\<close> of reaction \<open>r\<close> has fewer molecules than its
  coefficient, \<open>x[s] < |sub_stoch[r][s]|\<close>, the propensity of \<open>r\<close> is to be exactly \<open>0\<close>, a
  defined value. The code checks only \<open>x[s] \<le> 0\<close>. For the reaction \<^verbatim>\<open>2X1->...\<close> (substrate
  row \<open>[-2]\<close>) in the state \<open>[1]\<close> the check passes, \<^verbatim>\<open>calculate_hi(1, 2)\<close> reads \<open>b[2]\<close> in a
  list of length two, and the propensity computation raises \<^verbatim>\<open>IndexError\<close>.
\<close>

theorem propensity_insufficient_raises: "propensity [[- 2]] [Fin 1] 1 [1] 0 = Inl IndexError"
  by (simp add: propensity_def np_absolute_def wrap64_def calculate_hi_out_of_range)




subsection \<open>Runs of the loop on small networks\<close>



lemmas run_simps =
  gillespie_algo_def make_env_def initial_state_def matrix_add_def columns_def
  gillespie_loop.simps propensity_def py_sum_def next_values_def scan_mu.simps fsub_def
  update_system_def Let_def np_absolute_def wrap64_def numeral_2_eq_2 numeral_3_eq_3


text \<open>
  Claim C2. When the propensities computed at the top of an iteration sum to \<open>a0 = 0\<close>,
  the loop is to stop there: no call of the event scheduler, no division by \<open>a0\<close>, no
  stoichiometry applied. The loop has no such test. For the network \<^verbatim>\<open>X1->0\<close> with
  rate \<open>1\<close> started in the absorbed state \<open>[0]\<close>, the first iteration finds \<open>a0 = 0\<close>,
  calls \<^verbatim>\<open>next_values\<close>, which divides by \<open>a0\<close> (the time difference is infinite) and
  returns reaction \<open>0\<close>; the stoichiometry of that reaction is applied, and the caller's
  array ends as \<open>[-1]\<close>.
\<close>

theorem absorbed_state_fires_reaction:
  "gillespie_algo [[0]] 0 [Fin 1] [[- 1]] [[0]] (Fin 1) 3
       [Fin (1/2), Fin (1/2), Fin (1/2)] [Fin (1/2), Fin (1/2), Fin (1/2)]
     = Inr \<lparr> caller_store = [[- 1]], times = [Fin 0], molecules = [[0]] \<rparr>"
  by (simp add: run_simps dt_zero_total)


subsection \<open>The caller's array\<close>














subsection \<open>The reaction parser\<close>

lemma split_char_no_sep: "c \<notin> set s \<Longrightarrow> split_char c acc s = [rev acc @ s]"
  by (induction s arbitrary: acc) auto

lemma split_char_one_sep:
  "c \<notin> set p \<Longrightarrow> c \<notin> set k \<Longrightarrow> split_char c acc (p @ c # k) = [rev acc @ p, k]"
  by (induction p arbitrary: acc) (auto simp: split_char_no_sep)

lemma is_digit_not_space: "is_digit c \<Longrightarrow> \<not> is_space c"
  by (auto simp: is_digit_def is_space_def)

lemma strip_digits: "isdigit k \<Longrightarrow> strip k = k"
proof -
  assume k: "isdigit k"
  then obtain c cs where kc: "k = c # cs" by (cases k) (auto simp: isdigit_def)
  with k have "\<not> is_space c" by (auto simp: isdigit_def is_digit_not_space)
  then have 1: "dropWhile is_space k = k" by (simp add: kc)
  from k have "rev k \<noteq> []" by (auto simp: isdigit_def)
  then obtain d ds where rk: "rev k = d # ds" by (cases "rev k") auto
  then have "d \<in> set k" by (metis list.set_intros(1) set_rev)
  with k have "\<not> is_space d" by (auto simp: isdigit_def is_digit_not_space list_all_iff)
  then have "dropWhile is_space (rev k) = rev k" by (simp add: rk)
  with 1 show ?thesis by (simp add: strip_def)
qed

lemma py_int_digits: "isdigit k \<Longrightarrow> py_int k = Inr (digits_value 0 k)"
proof -
  assume k: "isdigit k"
  then obtain c cs where kc: "k = c # cs" by (cases k) (auto simp: isdigit_def)
  from k have nd: "\<forall>d\<in>set k. is_digit d" by (auto simp: isdigit_def list_all_iff)
  have neq: "c \<noteq> CHR ''-''" "c \<noteq> CHR ''+''" using nd kc by (auto simp: is_digit_def)
  have sign: "(case k of c # _ \<Rightarrow> if c = CHR ''-'' then - 1 else 1 | [] \<Rightarrow> (1::int)) = 1"
    using neq by (simp add: kc)
  have body: "(case k of c # cs \<Rightarrow> if c = CHR ''-'' \<or> c = CHR ''+'' then cs else k | [] \<Rightarrow> k) = k"
    using neq by (simp add: kc)
  have "CHR ''_'' \<notin> set k" using nd by (auto simp: is_digit_def)
  then have groups: "str_split (CHR ''_'') k = [k]"
    by (simp add: str_split_def split_char_no_sep)
  show ?thesis
    unfolding py_int_def Let_def strip_digits[OF k] sign body groups
    using k by simp
qed

lemma X_not_digit: "\<not> is_digit (CHR ''X'')"
  by (simp add: is_digit_def)

lemma isdigit_no_X: "isdigit k \<Longrightarrow> CHR ''X'' \<notin> set k"
  using X_not_digit by (auto simp: isdigit_def list_all_iff)

text \<open>
  Claim C7. The coefficients of the \<open>r\<close>-th reaction are to be written into row \<open>r\<close>, a
  side written \<^verbatim>\<open>0\<close> giving a zero row; parsing \<^verbatim>\<open>X1->0,0->X1\<close> is to give the product
  rows \<open>[[0], [1]]\<close>. The parser does not append a side without species to its list of
  sides, and fills the rows by position in that list: the products of the second
  reaction land in row \<open>0\<close>, and the product rows are \<open>[[1], [0]]\<close>.
\<close>

theorem empty_side_shifts_rows:
  "reactions_stoch ''X1->0,0->X1'' = Inr ([[- 1], [0]], [[1], [0]])"
  by code_simp

text \<open>
  Claim C6, as stated (every term outside the grammar makes the parser fail with a
  \<^verbatim>\<open>MalformedReaction\<close> error, and none is dropped or given a default reading), fails:
  the term \<^verbatim>\<open>foo\<close> is dropped, and \<^verbatim>\<open>aX1\<close> is read as \<^verbatim>\<open>X1\<close>.
\<close>

theorem malformed_terms_accepted:
  "reactions_stoch ''foo->X1'' = Inr ([[0]], [[1]]) \<and>
   reactions_stoch ''aX1->X1'' = Inr ([[- 1]], [[1]])"
  by code_simp

text \<open>
  Claim C6, amended. The parser has no \<^verbatim>\<open>MalformedReaction\<close> error and does not check
  the grammar. A term without the letter \<^verbatim>\<open>X\<close> is dropped without an error (this is how
  the side \<^verbatim>\<open>0\<close> is read); a term \<^verbatim>\<open>pXk\<close> whose prefix \<open>p\<close> is not a string of digits
  (and has no \<^verbatim>\<open>X\<close>) is read with the coefficient \<open>1\<close>, for \<open>k\<close> a string of digits.
\<close>

theorem parse_term_lenient:
  "(CHR ''X'' \<notin> set t \<longrightarrow> parse_term t = Inr None) \<and>
   (CHR ''X'' \<notin> set p \<and> \<not> isdigit p \<and> isdigit k \<longrightarrow>
      parse_term (p @ ''X'' @ k) = Inr (Some (1, digits_value 0 k)))"
proof (intro conjI impI)
  assume "CHR ''X'' \<notin> set t"
  then show "parse_term t = Inr None"
    by (simp add: parse_term_def str_split_def split_char_no_sep)
next
  assume a: "CHR ''X'' \<notin> set p \<and> \<not> isdigit p \<and> isdigit k"
  then have "CHR ''X'' \<notin> set k" by (simp add: isdigit_no_X)
  with a show "parse_term (p @ ''X'' @ k) = Inr (Some (1, digits_value 0 k))"
    by (simp add: parse_term_def str_split_def split_char_one_sep py_int_digits)
qed

theorem parse_term_lenient_witness:
  "CHR ''X'' \<notin> set ''foo'' \<and> parse_term ''foo'' = Inr None \<and>
   CHR ''X'' \<notin> set ''a'' \<and> \<not> isdigit ''a'' \<and> isdigit ''12'' \<and>
   parse_term ''aX12'' = Inr (Some (1, 12))"
  using parse_term_lenient[of "''foo''" "''a''" "''12''"]
  by (simp add: isdigit_def is_digit_def digit_value_def)

end
